theory Spec2Isabelle
  imports Complex_Main
begin

section \<open>Data model\<close>

text \<open>
  The repository holds two rate limiters for chat messages, each a Python class with a
  dictionary keyed by the user id:
  \<^item> \<^verbatim>\<open>SlidingWindowRateLimiter\<close> (task_1.py): at most \<^verbatim>\<open>max_requests\<close> messages in
    any window of \<^verbatim>\<open>window_size\<close> seconds; the dictionary maps a user to a deque of
    timestamps, oldest first;
  \<^item> \<^verbatim>\<open>ThrottlingRateLimiter\<close> (task_2.py): at least \<^verbatim>\<open>min_interval\<close> seconds between
    two messages; the dictionary maps a user to the timestamp of the last message.

  Every method reads the clock with \<^verbatim>\<open>time.time()\<close>. In the model the reading is an
  argument of the method (\<open>now\<close>), and the mutated object is returned beside the result.
  Timestamps and durations are Python floats; they are modelled as real numbers, so the
  subtraction and the comparisons of the code are exact. A deque is a list: \<^verbatim>\<open>append\<close>
  adds at the end, \<^verbatim>\<open>popleft\<close> removes the head, \<^verbatim>\<open>window[0]\<close> is the head.
\<close>

text \<open>
  The exceptions a method of the two classes could raise: \<^verbatim>\<open>IndexError\<close> from
  \<^verbatim>\<open>window[0]\<close> on an empty deque, \<^verbatim>\<open>KeyError\<close> from a dictionary lookup of a missing
  key. Every lookup in the code follows a membership test or an insertion of the same
  key, so no branch of the model returns \<^verbatim>\<open>KeyError\<close>.
\<close>

datatype py_error = IndexError | KeyError

record SlidingWindowRateLimiter =
  window_size :: real
  max_requests :: int
  user_records :: "string \<rightharpoonup> real list"

record ThrottlingRateLimiter =
  min_interval :: real
  user_last_timestamp :: "string \<rightharpoonup> real"

section \<open>The sliding-window limiter (task_1.py)\<close>

text \<open>
  \<^verbatim>\<open>__init__\<close> stores its arguments and an empty dictionary. It has no check and no
  \<^verbatim>\<open>raise\<close>: the outcome of the call is always the object.
\<close>

definition SlidingWindowRateLimiter_init :: "real \<Rightarrow> int \<Rightarrow> py_error + SlidingWindowRateLimiter" where
  "SlidingWindowRateLimiter_init ws mr =
     Inr \<lparr>window_size = ws, max_requests = mr, user_records = Map.empty\<rparr>"

text \<open>
  The loop of \<^verbatim>\<open>_cleanup_window\<close>:
  \<^verbatim>\<open>while window and (current_time - window[0]) >= self.window_size: window.popleft()\<close>
\<close>

fun popleft_expired :: "real \<Rightarrow> real \<Rightarrow> real list \<Rightarrow> real list" where
  "popleft_expired ws current_time [] = []"
| "popleft_expired ws current_time (t # window) =
     (if current_time - t \<ge> ws then popleft_expired ws current_time window
      else t # window)"

text \<open>
  \<^verbatim>\<open>_cleanup_window\<close>: nothing for a user that is not in the dictionary; otherwise the
  loop, and \<^verbatim>\<open>del self.user_records[user_id]\<close> when the deque is empty afterwards.
\<close>

definition cleanup_window ::
  "SlidingWindowRateLimiter \<Rightarrow> string \<Rightarrow> real \<Rightarrow> SlidingWindowRateLimiter" where
  "cleanup_window self user_id current_time =
     (case user_records self user_id of
        None \<Rightarrow> self
      | Some window \<Rightarrow>
          (let window' = popleft_expired (window_size self) current_time window in
           if window' = []
           then self\<lparr>user_records := (user_records self)(user_id := None)\<rparr>
           else self\<lparr>user_records := (user_records self)(user_id \<mapsto> window')\<rparr>))"

definition sliding_can_send_message ::
  "SlidingWindowRateLimiter \<Rightarrow> string \<Rightarrow> real \<Rightarrow> bool \<times> SlidingWindowRateLimiter" where
  "sliding_can_send_message self user_id now =
     (let self' = cleanup_window self user_id now in
      (case user_records self' user_id of
         None \<Rightarrow> True
       | Some window \<Rightarrow> int (length window) < max_requests self',
       self'))"

text \<open>
  \<^verbatim>\<open>record_message\<close>: after the cleanup, a user that is not in the dictionary gets a new
  empty deque (\<open>window\<close> below is the user's deque after that step, \<open>self2\<close> the object
  holding it); the timestamp is appended when the deque is shorter than
  \<^verbatim>\<open>max_requests\<close>.
\<close>

definition sliding_record_message ::
  "SlidingWindowRateLimiter \<Rightarrow> string \<Rightarrow> real \<Rightarrow> bool \<times> SlidingWindowRateLimiter" where
  "sliding_record_message self user_id now =
     (let self1 = cleanup_window self user_id now;
          window = (case user_records self1 user_id of None \<Rightarrow> [] | Some w \<Rightarrow> w);
          self2 = self1\<lparr>user_records := (user_records self1)(user_id \<mapsto> window)\<rparr>
      in if int (length window) < max_requests self2
         then (True, self2\<lparr>user_records := (user_records self2)(user_id \<mapsto> window @ [now])\<rparr>)
         else (False, self2))"

text \<open>
  \<^verbatim>\<open>time_until_next_allowed\<close>: \<^verbatim>\<open>window[0]\<close> raises IndexError on an empty deque, which
  is a branch of the model.
\<close>

definition sliding_time_until_next_allowed ::
  "SlidingWindowRateLimiter \<Rightarrow> string \<Rightarrow> real \<Rightarrow> (py_error + real) \<times> SlidingWindowRateLimiter" where
  "sliding_time_until_next_allowed self user_id now =
     (let self' = cleanup_window self user_id now in
      case user_records self' user_id of
        None \<Rightarrow> (Inr 0, self')
      | Some window \<Rightarrow>
          (case window of
             [] \<Rightarrow> (Inl IndexError, self')
           | oldest # _ \<Rightarrow>
               (let elapsed = now - oldest;
                    wait = window_size self' - elapsed
                in (Inr (max wait 0), self'))))"

section \<open>The throttling limiter (task_2.py)\<close>

definition ThrottlingRateLimiter_init :: "real \<Rightarrow> py_error + ThrottlingRateLimiter" where
  "ThrottlingRateLimiter_init mi =
     Inr \<lparr>min_interval = mi, user_last_timestamp = Map.empty\<rparr>"

definition throttling_can_send_message ::
  "ThrottlingRateLimiter \<Rightarrow> string \<Rightarrow> real \<Rightarrow> bool \<times> ThrottlingRateLimiter" where
  "throttling_can_send_message self user_id now =
     (case user_last_timestamp self user_id of
        None \<Rightarrow> (True, self)
      | Some last_timestamp \<Rightarrow> (let elapsed = now - last_timestamp in (elapsed \<ge> min_interval self, self)))"

text \<open>
  \<^verbatim>\<open>record_message\<close> reads the clock twice: once inside \<^verbatim>\<open>can_send_message\<close> (\<open>now\<close>)
  and once for the timestamp it stores (\<open>now2\<close>).
\<close>

definition throttling_record_message ::
  "ThrottlingRateLimiter \<Rightarrow> string \<Rightarrow> real \<Rightarrow> real \<Rightarrow> bool \<times> ThrottlingRateLimiter" where
  "throttling_record_message self user_id now now2 =
     (case throttling_can_send_message self user_id now of
        (True, self1) \<Rightarrow>
          (True, self1\<lparr>user_last_timestamp := (user_last_timestamp self1)(user_id \<mapsto> now2)\<rparr>)
      | (False, self1) \<Rightarrow> (False, self1))"

definition throttling_time_until_next_allowed ::
  "ThrottlingRateLimiter \<Rightarrow> string \<Rightarrow> real \<Rightarrow> real \<times> ThrottlingRateLimiter" where
  "throttling_time_until_next_allowed self user_id now =
     (case user_last_timestamp self user_id of
        None \<Rightarrow> (0, self)
      | Some last_timestamp \<Rightarrow>
          (let elapsed = now - last_timestamp;
               remaining = min_interval self - elapsed
           in (max remaining 0, self)))"

section \<open>Sequences of calls\<close>

text \<open>
  A call is a method, the user id and the clock reading. \<open>sliding_call\<close> gives the
  object after one call, \<open>sliding_run\<close> after a list of calls, and \<open>admitted\<close> the clock
  readings of the \<^verbatim>\<open>record_message\<close> calls of the run for one user that returned True,
  in the order of the calls.
\<close>

datatype operation = CanSendMessage | RecordMessage | TimeUntilNextAllowed

type_synonym call = "operation \<times> string \<times> real"

fun sliding_call :: "SlidingWindowRateLimiter \<Rightarrow> call \<Rightarrow> SlidingWindowRateLimiter" where
  "sliding_call self (CanSendMessage, user_id, now) = snd (sliding_can_send_message self user_id now)"
| "sliding_call self (RecordMessage, user_id, now) = snd (sliding_record_message self user_id now)"
| "sliding_call self (TimeUntilNextAllowed, user_id, now) =
     snd (sliding_time_until_next_allowed self user_id now)"

fun sliding_run :: "SlidingWindowRateLimiter \<Rightarrow> call list \<Rightarrow> SlidingWindowRateLimiter" where
  "sliding_run self [] = self"
| "sliding_run self (c # cs) = sliding_run (sliding_call self c) cs"

fun admitted :: "SlidingWindowRateLimiter \<Rightarrow> call list \<Rightarrow> string \<Rightarrow> real list" where
  "admitted self [] u = []"
| "admitted self ((m, user_id, now) # cs) u =
     (if m = RecordMessage \<and> user_id = u \<and> fst (sliding_record_message self user_id now)
      then [now] else [])
     @ admitted (sliding_call self (m, user_id, now)) cs u"

text \<open>
  \<open>window_of\<close> reads the stored timestamps of a user: the user's deque, and the empty
  list for a user that is not in the dictionary. \<open>call_time\<close> is the clock reading of
  a call.
\<close>

definition window_of :: "SlidingWindowRateLimiter \<Rightarrow> string \<Rightarrow> real list" where
  "window_of self u = (case user_records self u of None \<Rightarrow> [] | Some w \<Rightarrow> w)"

fun call_time :: "call \<Rightarrow> real" where
  "call_time (m, user_id, now) = now"

text \<open>
  The same for the throttling limiter. Its \<^verbatim>\<open>record_message\<close> reads the clock twice,
  so a call carries two readings; the other two methods use the first only.
\<close>

type_synonym throttling_call = "operation \<times> string \<times> real \<times> real"

fun throttling_call :: "ThrottlingRateLimiter \<Rightarrow> throttling_call \<Rightarrow> ThrottlingRateLimiter" where
  "throttling_call self (CanSendMessage, user_id, now, now2) =
     snd (throttling_can_send_message self user_id now)"
| "throttling_call self (RecordMessage, user_id, now, now2) =
     snd (throttling_record_message self user_id now now2)"
| "throttling_call self (TimeUntilNextAllowed, user_id, now, now2) =
     snd (throttling_time_until_next_allowed self user_id now)"

fun throttling_run :: "ThrottlingRateLimiter \<Rightarrow> throttling_call list \<Rightarrow> ThrottlingRateLimiter" where
  "throttling_run self [] = self"
| "throttling_run self (c # cs) = throttling_run (throttling_call self c) cs"

text \<open>
  The invariant of the sliding-window limiter used in the proofs below, for one user \<open>u\<close>,
  the list \<open>a\<close> of the timestamps admitted for \<open>u\<close> so far and the latest clock reading
  \<open>T\<close>: the admitted timestamps are in order and not after \<open>T\<close>, the stored deque is the
  end of that list, what was removed before it has left the window, no deque is stored
  empty, none is longer than \<^verbatim>\<open>max_requests\<close>, and \<^verbatim>\<open>max_requests\<close> is at least 1.
\<close>

definition window_inv :: "SlidingWindowRateLimiter \<Rightarrow> string \<Rightarrow> real list \<Rightarrow> real \<Rightarrow> bool" where
  "window_inv self u a T \<longleftrightarrow>
     sorted a \<and> (\<forall>t \<in> set a. t \<le> T)
     \<and> (\<exists>d. a = d @ window_of self u \<and> (\<forall>t \<in> set d. T - t \<ge> window_size self))
     \<and> user_records self u \<noteq> Some []
     \<and> int (length (window_of self u)) \<le> max_requests self
     \<and> 1 \<le> max_requests self"

section \<open>Properties of the cleanup\<close>

lemma popleft_expired_dropWhile:
  "popleft_expired ws now w = dropWhile (\<lambda>t. now - t \<ge> ws) w"
  by (induction w) auto

lemma cleanup_window_config [simp]:
  "window_size (cleanup_window self u now) = window_size self"
  "max_requests (cleanup_window self u now) = max_requests self"
  by (auto simp: cleanup_window_def Let_def split: option.splits)

lemma cleanup_window_other:
  "v \<noteq> u \<Longrightarrow> user_records (cleanup_window self u now) v = user_records self v"
  by (auto simp: cleanup_window_def Let_def split: option.splits)

lemma cleanup_window_user:
  "user_records (cleanup_window self u now) u =
     (if popleft_expired (window_size self) now (window_of self u) = [] then None
      else Some (popleft_expired (window_size self) now (window_of self u)))"
  by (auto simp: cleanup_window_def window_of_def Let_def split: option.splits)

lemma window_of_cleanup_window:
  "window_of (cleanup_window self u now) u =
     popleft_expired (window_size self) now (window_of self u)"
  by (simp add: window_of_def [of "cleanup_window self u now"] cleanup_window_user)

lemma cleanup_window_absent:
  "user_records self u = None \<Longrightarrow> cleanup_window self u now = self"
  by (simp add: cleanup_window_def)

lemma cleanup_window_not_empty: "user_records (cleanup_window self u now) u \<noteq> Some []"
  by (simp add: cleanup_window_user)

lemma popleft_expired_head:
  "popleft_expired ws now w = t # r \<Longrightarrow> now - t < ws"
  by (induction w) (auto split: if_splits)

lemma popleft_expired_fresh:
  "now - t < ws \<Longrightarrow> popleft_expired ws now (t # r) = t # r"
  by simp

lemma popleft_expired_keeps:
  "t \<in> set w \<Longrightarrow> now - t < ws \<Longrightarrow> t \<in> set (popleft_expired ws now w)"
  by (induction w) auto

lemma popleft_expired_split:
  "\<exists>e. w = e @ popleft_expired ws now w \<and> (\<forall>t \<in> set e. now - t \<ge> ws)"
proof (induction w)
  case Nil
  then show ?case by simp
next
  case (Cons a w)
  then obtain e where e: "w = e @ popleft_expired ws now w" "\<forall>t \<in> set e. now - t \<ge> ws"
    by blast
  show ?case
  proof (cases "now - a \<ge> ws")
    case True
    with e have "a # w = (a # e) @ popleft_expired ws now (a # w) \<and> (\<forall>t \<in> set (a # e). now - t \<ge> ws)"
      by simp
    then show ?thesis by blast
  next
    case False
    then have "a # w = [] @ popleft_expired ws now (a # w) \<and> (\<forall>t \<in> set []. now - t \<ge> ws)"
      by simp
    then show ?thesis by blast
  qed
qed

lemma popleft_expired_sorted:
  "sorted w \<Longrightarrow> popleft_expired ws now w = filter (\<lambda>t. now - ws < t) w"
proof (induction w)
  case Nil
  then show ?case by simp
next
  case (Cons a w)
  show ?case
  proof (cases "now - a \<ge> ws")
    case True
    with Cons show ?thesis by auto
  next
    case False
    with Cons.prems have "\<forall>t \<in> set (a # w). now - ws < t" by auto
    then have "filter (\<lambda>t. now - ws < t) (a # w) = a # w"
      by (simp only: filter_True)
    with False show ?thesis by simp
  qed
qed

text \<open>The three methods in terms of the cleanup.\<close>

lemma sliding_can_send_message_state:
  "snd (sliding_can_send_message self u now) = cleanup_window self u now"
  by (simp add: sliding_can_send_message_def Let_def)

lemma sliding_time_until_next_allowed_state:
  "snd (sliding_time_until_next_allowed self u now) = cleanup_window self u now"
  by (simp add: sliding_time_until_next_allowed_def Let_def split: option.splits list.splits)

lemma sliding_record_message_result:
  "fst (sliding_record_message self u now) =
     (int (length (window_of (cleanup_window self u now) u)) < max_requests self)"
  by (simp add: sliding_record_message_def Let_def window_of_def)

lemma sliding_record_message_admitted:
  "fst (sliding_record_message self u now) \<Longrightarrow>
   snd (sliding_record_message self u now) =
     (cleanup_window self u now)\<lparr>user_records :=
        (user_records (cleanup_window self u now))(u \<mapsto> window_of (cleanup_window self u now) u @ [now])\<rparr>"
  by (simp add: sliding_record_message_def Let_def window_of_def split: if_splits)

lemma sliding_record_message_rejected_state:
  "\<not> fst (sliding_record_message self u now) \<Longrightarrow>
   snd (sliding_record_message self u now) =
     (cleanup_window self u now)\<lparr>user_records :=
        (user_records (cleanup_window self u now))(u \<mapsto> window_of (cleanup_window self u now) u)\<rparr>"
  by (simp add: sliding_record_message_def Let_def window_of_def split: if_splits)

lemma sliding_record_message_rejected:
  assumes "1 \<le> max_requests self" and "\<not> fst (sliding_record_message self u now)"
  shows "snd (sliding_record_message self u now) = cleanup_window self u now"
proof -
  let ?c = "cleanup_window self u now"
  from assms have "window_of ?c u \<noteq> []"
    by (auto simp: sliding_record_message_result)
  then obtain w where w: "user_records ?c u = Some w"
    by (auto simp: window_of_def split: option.splits)
  then have "(user_records ?c)(u \<mapsto> window_of ?c u) = user_records ?c"
    by (auto simp: window_of_def)
  with assms(2) show ?thesis
    by (simp add: sliding_record_message_rejected_state)
qed

lemma sliding_record_message_window:
  "window_of (snd (sliding_record_message self u now)) u =
     window_of (cleanup_window self u now) u @ (if fst (sliding_record_message self u now) then [now] else [])"
  by (simp add: sliding_record_message_def Let_def window_of_def)

lemma sliding_record_message_other:
  "v \<noteq> u \<Longrightarrow> user_records (snd (sliding_record_message self u now)) v = user_records self v"
  by (simp add: sliding_record_message_def Let_def cleanup_window_other)

lemma sliding_record_message_config [simp]:
  "window_size (snd (sliding_record_message self u now)) = window_size self"
  "max_requests (snd (sliding_record_message self u now)) = max_requests self"
  by (simp_all add: sliding_record_message_def Let_def)

section \<open>The invariant along a run\<close>

lemma window_inv_later:
  "window_inv self u a T \<Longrightarrow> T \<le> T' \<Longrightarrow> window_inv self u a T'"
  unfolding window_inv_def by fastforce

lemma window_inv_cong:
  "window_inv self u a T \<Longrightarrow> user_records self' u = user_records self u \<Longrightarrow>
   window_size self' = window_size self \<Longrightarrow> max_requests self' = max_requests self \<Longrightarrow>
   window_inv self' u a T"
  unfolding window_inv_def window_of_def by simp

lemma window_inv_cleanup:
  assumes "window_inv self u a T" and "T \<le> t"
  shows "window_inv (cleanup_window self u t) u a t"
proof -
  from assms(1) obtain d where d: "a = d @ window_of self u"
      "\<forall>x \<in> set d. T - x \<ge> window_size self"
    and s: "sorted a" "\<forall>x \<in> set a. x \<le> T"
    and len: "int (length (window_of self u)) \<le> max_requests self" "1 \<le> max_requests self"
    unfolding window_inv_def by blast
  obtain e where e: "window_of self u = e @ popleft_expired (window_size self) t (window_of self u)"
      "\<forall>x \<in> set e. t - x \<ge> window_size self"
    using popleft_expired_split by blast
  let ?w = "popleft_expired (window_size self) t (window_of self u)"
  have 1: "a = (d @ e) @ ?w" using d(1) e(1) by simp
  have 2: "\<forall>x \<in> set (d @ e). t - x \<ge> window_size self"
    using d(2) e(2) assms(2) by fastforce
  have 3: "\<forall>x \<in> set a. x \<le> t" using s(2) assms(2) by fastforce
  have "length ?w \<le> length (window_of self u)"
    by (metis e(1) le_add2 length_append)
  with len have 4: "int (length ?w) \<le> max_requests self" by linarith
  show ?thesis
    unfolding window_inv_def
    using s(1) 1 2 3 4 len(2)
    by (simp only: window_of_cleanup_window cleanup_window_config cleanup_window_not_empty) blast
qed

lemma window_inv_record:
  assumes "window_inv self u a T" and "T \<le> t"
  shows "window_inv (snd (sliding_record_message self u t)) u
           (a @ (if fst (sliding_record_message self u t) then [t] else [])) t"
proof -
  let ?c = "cleanup_window self u t"
  have c: "window_inv ?c u a t" using assms by (rule window_inv_cleanup)
  then obtain d where d: "a = d @ window_of ?c u"
      "\<forall>x \<in> set d. t - x \<ge> window_size self"
    and s: "sorted a" "\<forall>x \<in> set a. x \<le> t"
    and ne: "user_records ?c u \<noteq> Some []"
    and len: "int (length (window_of ?c u)) \<le> max_requests self" "1 \<le> max_requests self"
    unfolding window_inv_def by auto
  show ?thesis
  proof (cases "fst (sliding_record_message self u t)")
    case True
    then have lt: "int (length (window_of ?c u)) < max_requests self"
      by (simp add: sliding_record_message_result)
    have w: "window_of (snd (sliding_record_message self u t)) u = window_of ?c u @ [t]"
      using True by (simp add: sliding_record_message_window)
    have r: "user_records (snd (sliding_record_message self u t)) u = Some (window_of ?c u @ [t])"
      using True by (simp add: sliding_record_message_admitted)
    have 1: "sorted (a @ [t])" using s by (simp add: sorted_append)
    have 2: "\<forall>x \<in> set (a @ [t]). x \<le> t" using s(2) by simp
    have 3: "a @ [t] = d @ (window_of ?c u @ [t])" using d(1) by simp
    have 4: "int (length (window_of ?c u @ [t])) \<le> max_requests self" using lt by simp
    show ?thesis
      unfolding window_inv_def using True 1 2 3 4 d(2) len(2)
      by (simp only: w r sliding_record_message_config if_True) blast
  next
    case False
    with len(2) have "snd (sliding_record_message self u t) = ?c"
      by (simp add: sliding_record_message_rejected)
    with c False show ?thesis by simp
  qed
qed

lemma window_inv_call:
  assumes "window_inv self u a T" and "T \<le> t"
  shows "window_inv (sliding_call self (m, v, t)) u
           (a @ (if m = RecordMessage \<and> v = u \<and> fst (sliding_record_message self v t) then [t] else [])) t"
proof (cases "v = u")
  case True
  show ?thesis
  proof (cases m)
    case CanSendMessage
    with True assms show ?thesis
      by (simp add: sliding_can_send_message_state window_inv_cleanup)
  next
    case RecordMessage
    with True assms show ?thesis
      using window_inv_record [of self u a T t] by simp
  next
    case TimeUntilNextAllowed
    with True assms show ?thesis
      by (simp add: sliding_time_until_next_allowed_state window_inv_cleanup)
  qed
next
  case False
  have "window_inv self u a t" using assms by (rule window_inv_later)
  moreover have "user_records (sliding_call self (m, v, t)) u = user_records self u"
    using False
    by (cases m) (simp_all add: sliding_can_send_message_state sliding_time_until_next_allowed_state
        cleanup_window_other sliding_record_message_other)
  moreover have "window_size (sliding_call self (m, v, t)) = window_size self"
    "max_requests (sliding_call self (m, v, t)) = max_requests self"
    by (cases m; simp add: sliding_can_send_message_state sliding_time_until_next_allowed_state)+
  ultimately show ?thesis using False by (simp add: window_inv_cong)
qed

lemma window_inv_run:
  "window_inv self u a T \<Longrightarrow> sorted (T # map call_time cs @ [T']) \<Longrightarrow>
   window_inv (sliding_run self cs) u (a @ admitted self cs u) T'"
proof (induction cs arbitrary: self a T)
  case Nil
  then show ?case by (simp add: window_inv_later)
next
  case (Cons c cs)
  obtain m v t where c: "c = (m, v, t)" by (cases c)
  from Cons.prems(2) c have t: "T \<le> t" and s: "sorted (t # map call_time cs @ [T'])"
    by simp_all
  from Cons.prems(1) t have
    "window_inv (sliding_call self (m, v, t)) u
       (a @ (if m = RecordMessage \<and> v = u \<and> fst (sliding_record_message self v t) then [t] else [])) t"
    by (rule window_inv_call)
  from Cons.IH [OF this s] c show ?case by simp
qed

lemma sliding_call_config [simp]:
  "window_size (sliding_call self c) = window_size self"
  "max_requests (sliding_call self c) = max_requests self"
proof -
  obtain m v t where c: "c = (m, v, t)" by (cases c)
  show "window_size (sliding_call self c) = window_size self"
    unfolding c
    by (cases m) (simp_all add: sliding_can_send_message_state sliding_time_until_next_allowed_state)
  show "max_requests (sliding_call self c) = max_requests self"
    unfolding c
    by (cases m) (simp_all add: sliding_can_send_message_state sliding_time_until_next_allowed_state)
qed

lemma sliding_run_config [simp]:
  "window_size (sliding_run self cs) = window_size self"
  "max_requests (sliding_run self cs) = max_requests self"
  by (induction cs arbitrary: self) simp_all

lemma window_inv_init:
  "1 \<le> mr \<Longrightarrow> window_inv \<lparr>window_size = ws, max_requests = mr, user_records = Map.empty\<rparr> u [] T"
  by (simp add: window_inv_def window_of_def)

lemma window_inv_now:
  assumes "window_inv self u a now"
  shows "window_of (cleanup_window self u now) u =
           filter (\<lambda>t. now - window_size self < t \<and> t \<le> now) a"
proof -
  from assms obtain d where d: "a = d @ window_of self u"
      "\<forall>x \<in> set d. now - x \<ge> window_size self"
    and s: "sorted a" "\<forall>x \<in> set a. x \<le> now"
    unfolding window_inv_def by blast
  from s(1) d(1) have "sorted (window_of self u)" by (simp add: sorted_append)
  then have 1: "window_of (cleanup_window self u now) u =
      filter (\<lambda>t. now - window_size self < t) (window_of self u)"
    by (simp add: window_of_cleanup_window popleft_expired_sorted)
  have 2: "filter (\<lambda>t. now - window_size self < t) d = []"
    using d(2) by (auto simp: filter_empty_conv)
  have 3: "filter (\<lambda>t. now - window_size self < t \<and> t \<le> now) a
            = filter (\<lambda>t. now - window_size self < t) a"
    using s(2) by (intro filter_cong) auto
  show ?thesis using 1 2 3 d(1) by simp
qed

section \<open>Window containment (claim C1)\<close>



section \<open>The cleanup (claim C2)\<close>



section \<open>The wait of the sliding-window limiter (claim C3)\<close>



section \<open>Admission by the throttling limiter (claim C4)\<close>



section \<open>Isolation of the users (claim C10)\<close>

lemma throttling_can_send_message_state:
  "snd (throttling_can_send_message self u now) = self"
  by (simp add: throttling_can_send_message_def Let_def split: option.splits)

lemma throttling_time_until_next_allowed_state:
  "snd (throttling_time_until_next_allowed self u now) = self"
  by (simp add: throttling_time_until_next_allowed_def Let_def split: option.splits)

lemma throttling_record_message_other:
  "v \<noteq> u \<Longrightarrow>
   user_last_timestamp (snd (throttling_record_message self u now now2)) v = user_last_timestamp self v"
  by (simp add: throttling_record_message_def throttling_can_send_message_def Let_def
        split: option.splits bool.splits)

text \<open>
  Claim C10. For both limiters, each of the three methods called for a user \<open>u\<close> leaves
  the entry of every other user \<open>v\<close> as it was (present with the same value, or absent).
\<close>

theorem per_user_isolation:
  assumes "v \<noteq> u"
  shows "user_records (snd (sliding_can_send_message self u now)) v = user_records self v
       \<and> user_records (snd (sliding_record_message self u now)) v = user_records self v
       \<and> user_records (snd (sliding_time_until_next_allowed self u now)) v = user_records self v
       \<and> user_records (cleanup_window self u now) v = user_records self v
       \<and> user_last_timestamp (snd (throttling_can_send_message th u now)) v = user_last_timestamp th v
       \<and> user_last_timestamp (snd (throttling_record_message th u now now2)) v = user_last_timestamp th v
       \<and> user_last_timestamp (snd (throttling_time_until_next_allowed th u now)) v = user_last_timestamp th v"
  using assms
  by (simp add: sliding_can_send_message_state sliding_time_until_next_allowed_state
        cleanup_window_other sliding_record_message_other throttling_can_send_message_state
        throttling_time_until_next_allowed_state throttling_record_message_other)

theorem per_user_isolation_witness:
  "''u2'' \<noteq> ''u1''
   \<and> user_records (snd (sliding_record_message
        \<lparr>window_size = 10, max_requests = 1, user_records = [''u1'' \<mapsto> [0], ''u2'' \<mapsto> [0]]\<rparr>
        ''u1'' 10)) ''u2'' = Some [0]
   \<and> user_records (snd (sliding_can_send_message
        \<lparr>window_size = 10, max_requests = 1, user_records = [''u1'' \<mapsto> [0], ''u2'' \<mapsto> [0]]\<rparr>
        ''u1'' 10)) ''u2'' = Some [0]
   \<and> user_last_timestamp (snd (throttling_record_message
        \<lparr>min_interval = 10, user_last_timestamp = [''u1'' \<mapsto> 0, ''u2'' \<mapsto> 0]\<rparr>
        ''u1'' 10 10)) ''u2'' = Some 0"
proof -
  have n: "''u2'' \<noteq> ''u1''" by simp
  from per_user_isolation [OF n,
      of "\<lparr>window_size = 10, max_requests = 1, user_records = [''u1'' \<mapsto> [0], ''u2'' \<mapsto> [0]]\<rparr>" 10
         "\<lparr>min_interval = 10, user_last_timestamp = [''u1'' \<mapsto> 0, ''u2'' \<mapsto> 0]\<rparr>" 10]
  show ?thesis by simp
qed

section \<open>Construction (claim C5)\<close>

lemma popleft_expired_no_window:
  "ws \<le> 0 \<Longrightarrow> \<forall>t \<in> set w. t \<le> now \<Longrightarrow> popleft_expired ws now w = []"
  by (induction w) auto

text \<open>
  Claim C5 says that a constructor refuses an invalid configuration with a
  configuration error. Neither \<^verbatim>\<open>__init__\<close> has a check: a window of 0 seconds, a
  limit of 0 messages and an interval of 0 seconds are all accepted.
\<close>

theorem invalid_configuration_accepted:
  "\<not> isl (SlidingWindowRateLimiter_init 0 1)
   \<and> \<not> isl (SlidingWindowRateLimiter_init 10 0)
   \<and> \<not> isl (ThrottlingRateLimiter_init 0)
   \<and> max_requests (projr (SlidingWindowRateLimiter_init 10 0)) = 0
   \<and> \<not> fst (sliding_record_message (projr (SlidingWindowRateLimiter_init 10 0)) ''u1'' 0)"
  by (simp add: SlidingWindowRateLimiter_init_def ThrottlingRateLimiter_init_def
        sliding_record_message_def cleanup_window_def Let_def)

text \<open>
  Claim C5 as amended. Construction never fails: for every \<^verbatim>\<open>window_size\<close>,
  \<^verbatim>\<open>max_requests\<close> and \<^verbatim>\<open>min_interval\<close>, valid or not, the constructor returns an object
  that holds the values as given and an empty dictionary. An invalid value shows only in
  what the methods do later: with \<^verbatim>\<open>max_requests < 1\<close> every \<^verbatim>\<open>record_message\<close> returns
  False; with \<^verbatim>\<open>window_size \<le> 0\<close> the cleanup removes every entry of a user whose
  timestamps are not after \<open>now\<close>; with \<^verbatim>\<open>min_interval \<le> 0\<close> \<^verbatim>\<open>can_send_message\<close> is True
  whenever the stored timestamp is not after \<open>now\<close>.
\<close>

theorem constructors_accept_every_configuration:
  "SlidingWindowRateLimiter_init ws mr =
     Inr \<lparr>window_size = ws, max_requests = mr, user_records = Map.empty\<rparr>
   \<and> ThrottlingRateLimiter_init mi = Inr \<lparr>min_interval = mi, user_last_timestamp = Map.empty\<rparr>
   \<and> (max_requests self < 1 \<longrightarrow> \<not> fst (sliding_record_message self u now))
   \<and> (window_size self \<le> 0 \<and> (\<forall>t \<in> set (window_of self u). t \<le> now) \<longrightarrow>
        user_records (cleanup_window self u now) u = None)
   \<and> (min_interval th \<le> 0 \<and> (\<forall>t. user_last_timestamp th u = Some t \<longrightarrow> t \<le> now) \<longrightarrow>
        fst (throttling_can_send_message th u now))"
proof -
  have a: "max_requests self < 1 \<longrightarrow> \<not> fst (sliding_record_message self u now)"
    by (simp add: sliding_record_message_result)
  have b: "window_size self \<le> 0 \<and> (\<forall>t \<in> set (window_of self u). t \<le> now) \<longrightarrow>
        user_records (cleanup_window self u now) u = None"
    by (simp add: cleanup_window_user popleft_expired_no_window)
  have c: "min_interval th \<le> 0 \<and> (\<forall>t. user_last_timestamp th u = Some t \<longrightarrow> t \<le> now) \<longrightarrow>
        fst (throttling_can_send_message th u now)"
    by (auto simp: throttling_can_send_message_def Let_def split: option.splits)
  from a b c show ?thesis
    by (simp only: SlidingWindowRateLimiter_init_def ThrottlingRateLimiter_init_def simp_thms)
qed

theorem constructors_accept_every_configuration_witness:
  "SlidingWindowRateLimiter_init (-1) 0 =
     Inr \<lparr>window_size = -1, max_requests = 0, user_records = Map.empty\<rparr>
   \<and> ThrottlingRateLimiter_init (-1) = Inr \<lparr>min_interval = -1, user_last_timestamp = Map.empty\<rparr>
   \<and> max_requests \<lparr>window_size = -1, max_requests = 0, user_records = [''u1'' \<mapsto> [3]]\<rparr> < 1
   \<and> \<not> fst (sliding_record_message
        \<lparr>window_size = -1, max_requests = 0, user_records = [''u1'' \<mapsto> [3]]\<rparr> ''u1'' 3)
   \<and> window_size \<lparr>window_size = -1, max_requests = 0, user_records = [''u1'' \<mapsto> [3]]\<rparr> \<le> 0
   \<and> window_of \<lparr>window_size = -1, max_requests = 0, user_records = [''u1'' \<mapsto> [3]]\<rparr> ''u1'' = [3]
   \<and> user_records (cleanup_window
        \<lparr>window_size = -1, max_requests = 0, user_records = [''u1'' \<mapsto> [3]]\<rparr> ''u1'' 3) ''u1'' = None
   \<and> min_interval \<lparr>min_interval = -1, user_last_timestamp = [''u1'' \<mapsto> 3]\<rparr> \<le> 0
   \<and> fst (throttling_can_send_message
        \<lparr>min_interval = -1, user_last_timestamp = [''u1'' \<mapsto> 3]\<rparr> ''u1'' 3)"
proof -
  let ?self = "\<lparr>window_size = -1, max_requests = 0, user_records = [''u1'' \<mapsto> [3::real]]\<rparr>"
  let ?th = "\<lparr>min_interval = -1, user_last_timestamp = [''u1'' \<mapsto> 3::real]\<rparr>"
  have w: "window_of ?self ''u1'' = [3]" by (simp add: window_of_def)
  from constructors_accept_every_configuration [of "-1" 0 "-1" ?self "''u1''" 3 ?th] w
  show ?thesis by simp
qed

section \<open>Creation of a user's entry (claim C6)\<close>

text \<open>
  Claim C6 says that the first \<^verbatim>\<open>can_send_message\<close> for a never-seen user creates the
  user's entry. In both classes \<^verbatim>\<open>can_send_message\<close> writes nothing for such a user:
  after the call on the new object the user is still absent.
\<close>

theorem can_send_message_creates_no_entry:
  "fst (sliding_can_send_message (projr (SlidingWindowRateLimiter_init 10 1)) ''u1'' 0)
   \<and> user_records (snd (sliding_can_send_message
        (projr (SlidingWindowRateLimiter_init 10 1)) ''u1'' 0)) ''u1'' = None
   \<and> fst (throttling_can_send_message (projr (ThrottlingRateLimiter_init 10)) ''u2'' 0)
   \<and> user_last_timestamp (snd (throttling_can_send_message
        (projr (ThrottlingRateLimiter_init 10)) ''u2'' 0)) ''u2'' = None"
  by (simp add: SlidingWindowRateLimiter_init_def ThrottlingRateLimiter_init_def
        sliding_can_send_message_def throttling_can_send_message_def cleanup_window_def)

text \<open>
  Claim C6 as amended. For both limiters the entry of a never-seen user is created by
  the user's first \<^verbatim>\<open>record_message\<close> call and by no other method:
  \<^verbatim>\<open>can_send_message\<close> returns True and \<^verbatim>\<open>time_until_next_allowed\<close> returns 0.0, and both
  leave the object unchanged, so the user is still absent; \<^verbatim>\<open>record_message\<close> leaves the
  user present (sliding window: with the deque \<open>[now]\<close> when \<^verbatim>\<open>max_requests\<close> is at
  least 1; throttling: with the clock reading it stored).
\<close>

theorem entry_created_by_record_message_only:
  "(user_records self u = None \<longrightarrow>
      sliding_can_send_message self u now = (True, self)
      \<and> sliding_time_until_next_allowed self u now = (Inr 0, self)
      \<and> user_records (snd (sliding_record_message self u now)) u =
          Some (if 1 \<le> max_requests self then [now] else []))
   \<and> (user_last_timestamp th u = None \<longrightarrow>
      throttling_can_send_message th u now = (True, th)
      \<and> throttling_time_until_next_allowed th u now = (0, th)
      \<and> fst (throttling_record_message th u now now2)
      \<and> user_last_timestamp (snd (throttling_record_message th u now now2)) u = Some now2)"
proof -
  have a: "user_records self u = None \<longrightarrow>
      sliding_can_send_message self u now = (True, self)
      \<and> sliding_time_until_next_allowed self u now = (Inr 0, self)
      \<and> user_records (snd (sliding_record_message self u now)) u =
          Some (if 1 \<le> max_requests self then [now] else [])"
    by (simp add: sliding_can_send_message_def sliding_time_until_next_allowed_def
          sliding_record_message_def cleanup_window_absent Let_def)
  have b: "user_last_timestamp th u = None \<longrightarrow>
      throttling_can_send_message th u now = (True, th)
      \<and> throttling_time_until_next_allowed th u now = (0, th)
      \<and> fst (throttling_record_message th u now now2)
      \<and> user_last_timestamp (snd (throttling_record_message th u now now2)) u = Some now2"
    by (simp add: throttling_can_send_message_def throttling_time_until_next_allowed_def
          throttling_record_message_def)
  from a b show ?thesis by (intro conjI)
qed

theorem entry_created_by_record_message_only_witness:
  "user_records \<lparr>window_size = 10, max_requests = 1, user_records = Map.empty\<rparr> ''u1'' = None
   \<and> sliding_can_send_message
        \<lparr>window_size = 10, max_requests = 1, user_records = Map.empty\<rparr> ''u1'' 0
      = (True, \<lparr>window_size = 10, max_requests = 1, user_records = Map.empty\<rparr>)
   \<and> user_records (snd (sliding_record_message
        \<lparr>window_size = 10, max_requests = 1, user_records = Map.empty\<rparr> ''u1'' 0)) ''u1''
      = Some [0]
   \<and> user_last_timestamp \<lparr>min_interval = 10, user_last_timestamp = Map.empty\<rparr> ''u2'' = None
   \<and> throttling_can_send_message
        \<lparr>min_interval = 10, user_last_timestamp = Map.empty\<rparr> ''u2'' 0
      = (True, \<lparr>min_interval = 10, user_last_timestamp = Map.empty\<rparr>)
   \<and> user_last_timestamp (snd (throttling_record_message
        \<lparr>min_interval = 10, user_last_timestamp = Map.empty\<rparr> ''u2'' 0 0)) ''u2'' = Some 0"
  using entry_created_by_record_message_only
    [of "\<lparr>window_size = 10, max_requests = 1, user_records = Map.empty\<rparr>" "''u1''" 0
        "\<lparr>min_interval = 10, user_last_timestamp = Map.empty\<rparr>" 0]
    entry_created_by_record_message_only
    [of "\<lparr>window_size = 10, max_requests = 1, user_records = Map.empty\<rparr>" "''u2''" 0
        "\<lparr>min_interval = 10, user_last_timestamp = Map.empty\<rparr>" 0]
  by simp

section \<open>The wait after a rejection (claim C8)\<close>

text \<open>
  Claim C8 says that for both limiters a rejected \<^verbatim>\<open>record_message\<close> is followed, at the
  same clock reading, by a positive \<^verbatim>\<open>time_until_next_allowed\<close>. The sliding-window
  limiter built with \<^verbatim>\<open>max_requests=0\<close> rejects the record of a new user and then reports
  a wait of 0.0.
\<close>

theorem rejection_with_zero_wait:
  "\<not> fst (sliding_record_message (projr (SlidingWindowRateLimiter_init 10 0)) ''u1'' 0)
   \<and> fst (sliding_time_until_next_allowed
        (snd (sliding_record_message (projr (SlidingWindowRateLimiter_init 10 0)) ''u1'' 0))
        ''u1'' 0) = Inr 0"
  by (simp add: SlidingWindowRateLimiter_init_def sliding_record_message_def
        sliding_time_until_next_allowed_def cleanup_window_def Let_def)

text \<open>
  Claim C8 as amended. For the throttling limiter, and for the sliding-window limiter
  with \<^verbatim>\<open>max_requests\<close> at least 1: when \<^verbatim>\<open>record_message\<close> returns False,
  \<^verbatim>\<open>time_until_next_allowed\<close> called on the object it leaves, for the same user and at the
  same clock reading, returns a value that is greater than 0 (and does not raise).
\<close>

theorem positive_wait_after_rejection:
  "(1 \<le> max_requests self \<and> \<not> fst (sliding_record_message self u now) \<longrightarrow>
      (\<exists>w. fst (sliding_time_until_next_allowed (snd (sliding_record_message self u now)) u now)
            = Inr w \<and> 0 < w))
   \<and> (\<not> fst (throttling_record_message th u now now2) \<longrightarrow>
      0 < fst (throttling_time_until_next_allowed
                 (snd (throttling_record_message th u now now2)) u now))"
proof -
  have a: "1 \<le> max_requests self \<and> \<not> fst (sliding_record_message self u now) \<longrightarrow>
      (\<exists>w. fst (sliding_time_until_next_allowed (snd (sliding_record_message self u now)) u now)
            = Inr w \<and> 0 < w)"
  proof
    assume h: "1 \<le> max_requests self \<and> \<not> fst (sliding_record_message self u now)"
    let ?c = "cleanup_window self u now"
    from h have s: "snd (sliding_record_message self u now) = ?c"
      by (simp add: sliding_record_message_rejected)
    from h have "window_of ?c u \<noteq> []"
      by (auto simp: sliding_record_message_result)
    then obtain t r where w: "window_of ?c u = t # r"
      by (cases "window_of ?c u") auto
    then have p: "popleft_expired (window_size self) now (window_of self u) = t # r"
      by (simp add: window_of_cleanup_window)
    then have fresh: "now - t < window_size self"
      by (rule popleft_expired_head)
    from w have rec: "user_records ?c u = Some (t # r)"
      by (auto simp: window_of_def split: option.splits)
    have "cleanup_window ?c u now = ?c"
      using rec fresh by (simp add: cleanup_window_def [of ?c] map_upd_triv)
    with rec fresh
    have "fst (sliding_time_until_next_allowed ?c u now) = Inr (window_size self - (now - t))
          \<and> 0 < window_size self - (now - t)"
      by (simp add: sliding_time_until_next_allowed_def Let_def)
    with s show "\<exists>w. fst (sliding_time_until_next_allowed (snd (sliding_record_message self u now)) u now)
            = Inr w \<and> 0 < w"
      by (simp only:) blast
  qed
  have b: "\<not> fst (throttling_record_message th u now now2) \<longrightarrow>
      0 < fst (throttling_time_until_next_allowed
                 (snd (throttling_record_message th u now now2)) u now)"
    by (auto simp: throttling_record_message_def throttling_can_send_message_def
          throttling_time_until_next_allowed_def Let_def split: option.splits bool.splits)
  from a b show ?thesis by (intro conjI)
qed

theorem positive_wait_after_rejection_witness:
  "1 \<le> max_requests \<lparr>window_size = 10, max_requests = 1, user_records = [''u1'' \<mapsto> [0]]\<rparr>
   \<and> \<not> fst (sliding_record_message
        \<lparr>window_size = 10, max_requests = 1, user_records = [''u1'' \<mapsto> [0]]\<rparr> ''u1'' 5)
   \<and> fst (sliding_time_until_next_allowed (snd (sliding_record_message
        \<lparr>window_size = 10, max_requests = 1, user_records = [''u1'' \<mapsto> [0]]\<rparr> ''u1'' 5)) ''u1'' 5)
      = Inr 5
   \<and> \<not> fst (throttling_record_message
        \<lparr>min_interval = 10, user_last_timestamp = [''u1'' \<mapsto> 0]\<rparr> ''u1'' 5 5)
   \<and> fst (throttling_time_until_next_allowed (snd (throttling_record_message
        \<lparr>min_interval = 10, user_last_timestamp = [''u1'' \<mapsto> 0]\<rparr> ''u1'' 5 5)) ''u1'' 5) = 5"
proof -
  let ?self = "\<lparr>window_size = 10, max_requests = 1, user_records = [''u1'' \<mapsto> [0::real]]\<rparr>"
  let ?th = "\<lparr>min_interval = 10, user_last_timestamp = [''u1'' \<mapsto> 0::real]\<rparr>"
  have r: "sliding_record_message ?self ''u1'' 5 = (False, ?self)"
    by (simp add: sliding_record_message_def cleanup_window_def Let_def)
  have t: "throttling_record_message ?th ''u1'' 5 5 = (False, ?th)"
    by (simp add: throttling_record_message_def throttling_can_send_message_def Let_def)
  have ws: "fst (sliding_time_until_next_allowed ?self ''u1'' 5) = Inr 5"
    by (simp add: sliding_time_until_next_allowed_def cleanup_window_def Let_def)
  have wt: "fst (throttling_time_until_next_allowed ?th ''u1'' 5) = 5"
    by (simp add: throttling_time_until_next_allowed_def Let_def)
  from positive_wait_after_rejection [of ?self "''u1''" 5 ?th 5] r t ws wt
  show ?thesis by simp
qed

section \<open>Reclamation of entries (claim C7)\<close>

lemma sliding_call_other:
  "v \<noteq> u \<Longrightarrow> user_records (sliding_call self (m, u, t)) v = user_records self v"
  by (cases m) (simp_all add: sliding_can_send_message_state
        sliding_time_until_next_allowed_state cleanup_window_other sliding_record_message_other)

lemma sliding_record_message_not_empty:
  assumes "1 \<le> max_requests self"
  shows "user_records (snd (sliding_record_message self u now)) u \<noteq> Some []"
proof (cases "fst (sliding_record_message self u now)")
  case True
  then show ?thesis by (simp add: sliding_record_message_admitted)
next
  case False
  with assms show ?thesis
    by (simp add: sliding_record_message_rejected cleanup_window_not_empty)
qed

lemma sliding_call_not_empty:
  assumes "1 \<le> max_requests self" and "\<forall>v. user_records self v \<noteq> Some []"
  shows "user_records (sliding_call self c) v \<noteq> Some []"
proof -
  obtain m u t where c: "c = (m, u, t)" by (cases c)
  show ?thesis
  proof (cases "v = u")
    case True
    with assms(1) show ?thesis
      unfolding c
      by (cases m) (simp_all add: sliding_can_send_message_state
            sliding_time_until_next_allowed_state cleanup_window_not_empty
            sliding_record_message_not_empty)
  next
    case False
    with assms(2) show ?thesis
      unfolding c by (simp add: sliding_call_other)
  qed
qed

lemma sliding_run_not_empty:
  "1 \<le> max_requests self \<Longrightarrow> \<forall>v. user_records self v \<noteq> Some [] \<Longrightarrow>
   user_records (sliding_run self cs) v \<noteq> Some []"
proof (induction cs arbitrary: self)
  case Nil
  then show ?case by simp
next
  case (Cons c cs)
  have "1 \<le> max_requests (sliding_call self c)" using Cons.prems(1) by simp
  moreover have "\<forall>v. user_records (sliding_call self c) v \<noteq> Some []"
    using Cons.prems by (simp add: sliding_call_not_empty)
  ultimately show ?case using Cons.IH by simp
qed

lemma sliding_call_absent:
  assumes "user_records self u = None" and "\<not> (m = RecordMessage \<and> v = u)"
  shows "user_records (sliding_call self (m, v, t)) u = None"
proof (cases "v = u")
  case True
  with assms show ?thesis
    by (cases m) (simp_all add: sliding_can_send_message_state
          sliding_time_until_next_allowed_state cleanup_window_absent)
next
  case False
  with assms(1) show ?thesis by (simp add: sliding_call_other)
qed

lemma sliding_run_absent:
  "user_records self u = None \<Longrightarrow> \<forall>t. (RecordMessage, u, t) \<notin> set cs \<Longrightarrow>
   user_records (sliding_run self cs) u = None"
proof (induction cs arbitrary: self)
  case Nil
  then show ?case by simp
next
  case (Cons c cs)
  obtain m v t where c: "c = (m, v, t)" by (cases c)
  from Cons.prems(2) c have n: "\<not> (m = RecordMessage \<and> v = u)" by auto
  from Cons.prems(1) n have "user_records (sliding_call self (m, v, t)) u = None"
    by (rule sliding_call_absent)
  moreover from Cons.prems(2) have "\<forall>t. (RecordMessage, u, t) \<notin> set cs" by simp
  ultimately show ?case using Cons.IH c by simp
qed

lemma throttling_record_message_present:
  "user_last_timestamp self u \<noteq> None \<Longrightarrow>
   user_last_timestamp (snd (throttling_record_message self v now now2)) u \<noteq> None"
  by (simp add: throttling_record_message_def throttling_can_send_message_def Let_def
        split: option.splits bool.splits)

lemma throttling_call_present:
  "user_last_timestamp self u \<noteq> None \<Longrightarrow> user_last_timestamp (throttling_call self c) u \<noteq> None"
proof -
  assume p: "user_last_timestamp self u \<noteq> None"
  obtain m v t t2 where c: "c = (m, v, t, t2)" by (cases c)
  from p show ?thesis
    unfolding c
    by (cases m) (simp_all add: throttling_can_send_message_state
          throttling_time_until_next_allowed_state throttling_record_message_present)
qed

lemma throttling_run_present:
  "user_last_timestamp self u \<noteq> None \<Longrightarrow> user_last_timestamp (throttling_run self cs) u \<noteq> None"
proof (induction cs arbitrary: self)
  case Nil
  then show ?case by simp
next
  case (Cons c cs)
  from Cons.prems have "user_last_timestamp (throttling_call self c) u \<noteq> None"
    by (rule throttling_call_present)
  then have "user_last_timestamp (throttling_run (throttling_call self c) cs) u \<noteq> None"
    by (rule Cons.IH)
  then show ?case by simp
qed

lemma throttling_call_absent:
  assumes "user_last_timestamp self u = None" and "\<not> (m = RecordMessage \<and> v = u)"
  shows "user_last_timestamp (throttling_call self (m, v, t, t2)) u = None"
proof (cases m)
  case CanSendMessage
  with assms(1) show ?thesis by (simp add: throttling_can_send_message_state)
next
  case RecordMessage
  with assms(2) have "u \<noteq> v" by auto
  with assms(1) RecordMessage show ?thesis by (simp add: throttling_record_message_other)
next
  case TimeUntilNextAllowed
  with assms(1) show ?thesis by (simp add: throttling_time_until_next_allowed_state)
qed

lemma throttling_run_absent:
  "user_last_timestamp self u = None \<Longrightarrow> \<forall>t t2. (RecordMessage, u, t, t2) \<notin> set cs \<Longrightarrow>
   user_last_timestamp (throttling_run self cs) u = None"
proof (induction cs arbitrary: self)
  case Nil
  then show ?case by simp
next
  case (Cons c cs)
  obtain m v t t2 where c: "c = (m, v, t, t2)" by (cases c)
  from Cons.prems(2) c have n: "\<not> (m = RecordMessage \<and> v = u)" by auto
  from Cons.prems(1) n have "user_last_timestamp (throttling_call self (m, v, t, t2)) u = None"
    by (rule throttling_call_absent)
  moreover from Cons.prems(2) have "\<forall>t t2. (RecordMessage, u, t, t2) \<notin> set cs" by simp
  ultimately show ?case using Cons.IH c by simp
qed

text \<open>
  Claim C7 says that both limiters delete the entry of a user whose state has become
  empty or has expired. The throttling limiter has no deletion: ten times
  \<^verbatim>\<open>min_interval\<close> after the only admission, and after calls of the other two methods,
  the user's timestamp is still stored. The sliding-window limiter built with
  \<^verbatim>\<open>max_requests=0\<close> leaves an empty deque for the user whose record it rejects.
\<close>

theorem throttling_entry_never_deleted:
  "user_last_timestamp (throttling_run (projr (ThrottlingRateLimiter_init 10))
      [(RecordMessage, ''u2'', 0, 0), (CanSendMessage, ''u2'', 100, 100),
       (TimeUntilNextAllowed, ''u2'', 100, 100)]) ''u2'' = Some 0
   \<and> user_records (sliding_run (projr (SlidingWindowRateLimiter_init 10 0))
      [(RecordMessage, ''u1'', 0)]) ''u1'' = Some []"
  by (simp add: ThrottlingRateLimiter_init_def SlidingWindowRateLimiter_init_def
        throttling_record_message_def throttling_can_send_message_def
        throttling_time_until_next_allowed_def sliding_record_message_def
        cleanup_window_def Let_def)

text \<open>
  Claim C7 as amended. Sliding window: the cleanup deletes the user's entry exactly
  when it empties the deque, and otherwise stores what is left; after every run of calls
  on a limiter constructed with \<^verbatim>\<open>max_requests\<close> at least 1 no user maps to an empty
  deque; a user for whom the run has no \<^verbatim>\<open>record_message\<close> call has no entry. Throttling:
  an entry is never deleted, whatever time has passed: a user that has an entry still
  has one after every run of calls; a user for whom the run from the constructor has no
  \<^verbatim>\<open>record_message\<close> call has no entry.
\<close>

theorem store_reclamation:
  "user_records (cleanup_window self u now) u =
     (if dropWhile (\<lambda>t. now - t \<ge> window_size self) (window_of self u) = [] then None
      else Some (dropWhile (\<lambda>t. now - t \<ge> window_size self) (window_of self u)))
   \<and> (\<forall>self0. SlidingWindowRateLimiter_init ws mr = Inr self0 \<and> 1 \<le> mr \<longrightarrow>
        (\<forall>v. user_records (sliding_run self0 cs) v \<noteq> Some []))
   \<and> (\<forall>self0. SlidingWindowRateLimiter_init ws mr = Inr self0
          \<and> (\<forall>t. (RecordMessage, u, t) \<notin> set cs) \<longrightarrow>
        user_records (sliding_run self0 cs) u = None)
   \<and> (user_last_timestamp th u \<noteq> None \<longrightarrow>
        user_last_timestamp (throttling_run th tcs) u \<noteq> None)
   \<and> (\<forall>th0. ThrottlingRateLimiter_init mi = Inr th0
          \<and> (\<forall>t t2. (RecordMessage, u, t, t2) \<notin> set tcs) \<longrightarrow>
        user_last_timestamp (throttling_run th0 tcs) u = None)"
proof -
  have a: "user_records (cleanup_window self u now) u =
     (if dropWhile (\<lambda>t. now - t \<ge> window_size self) (window_of self u) = [] then None
      else Some (dropWhile (\<lambda>t. now - t \<ge> window_size self) (window_of self u)))"
    by (simp only: cleanup_window_user popleft_expired_dropWhile)
  have b: "\<forall>self0. SlidingWindowRateLimiter_init ws mr = Inr self0 \<and> 1 \<le> mr \<longrightarrow>
        (\<forall>v. user_records (sliding_run self0 cs) v \<noteq> Some [])"
  proof (intro allI impI)
    fix self0 v
    assume h: "SlidingWindowRateLimiter_init ws mr = Inr self0 \<and> 1 \<le> mr"
    then have "1 \<le> max_requests self0" and "\<forall>v. user_records self0 v \<noteq> Some []"
      by (auto simp: SlidingWindowRateLimiter_init_def)
    then show "user_records (sliding_run self0 cs) v \<noteq> Some []"
      by (rule sliding_run_not_empty)
  qed
  have c: "\<forall>self0. SlidingWindowRateLimiter_init ws mr = Inr self0
          \<and> (\<forall>t. (RecordMessage, u, t) \<notin> set cs) \<longrightarrow>
        user_records (sliding_run self0 cs) u = None"
    by (auto simp: SlidingWindowRateLimiter_init_def intro!: sliding_run_absent)
  have d: "user_last_timestamp th u \<noteq> None \<longrightarrow>
        user_last_timestamp (throttling_run th tcs) u \<noteq> None"
    using throttling_run_present by blast
  have e: "\<forall>th0. ThrottlingRateLimiter_init mi = Inr th0
          \<and> (\<forall>t t2. (RecordMessage, u, t, t2) \<notin> set tcs) \<longrightarrow>
        user_last_timestamp (throttling_run th0 tcs) u = None"
    by (auto simp: ThrottlingRateLimiter_init_def intro!: throttling_run_absent)
  from a b c d e show ?thesis by (intro conjI)
qed

theorem store_reclamation_witness:
  "SlidingWindowRateLimiter_init 10 1 =
     Inr \<lparr>window_size = 10, max_requests = 1, user_records = Map.empty\<rparr>
   \<and> (1::int) \<le> 1
   \<and> user_records (cleanup_window
        \<lparr>window_size = 10, max_requests = 1, user_records = [''u1'' \<mapsto> [0]]\<rparr> ''u1'' 10) ''u1'' = None
   \<and> user_records (sliding_run \<lparr>window_size = 10, max_requests = 1, user_records = Map.empty\<rparr>
        [(RecordMessage, ''u1'', 0), (CanSendMessage, ''u2'', 3), (CanSendMessage, ''u1'', 10)])
        ''u1'' = None
   \<and> user_records (sliding_run \<lparr>window_size = 10, max_requests = 1, user_records = Map.empty\<rparr>
        [(RecordMessage, ''u1'', 0), (CanSendMessage, ''u2'', 3), (CanSendMessage, ''u1'', 10)])
        ''u2'' = None
   \<and> ThrottlingRateLimiter_init 10 = Inr \<lparr>min_interval = 10, user_last_timestamp = Map.empty\<rparr>
   \<and> user_last_timestamp \<lparr>min_interval = 10, user_last_timestamp = [''u2'' \<mapsto> 0]\<rparr> ''u2'' = Some 0
   \<and> user_last_timestamp (throttling_run
        \<lparr>min_interval = 10, user_last_timestamp = [''u2'' \<mapsto> 0]\<rparr>
        [(CanSendMessage, ''u2'', 100, 100), (TimeUntilNextAllowed, ''u1'', 100, 100)]) ''u2'' = Some 0
   \<and> user_last_timestamp (throttling_run
        \<lparr>min_interval = 10, user_last_timestamp = Map.empty\<rparr>
        [(CanSendMessage, ''u2'', 100, 100), (TimeUntilNextAllowed, ''u1'', 100, 100)]) ''u1'' = None"
proof -
  let ?self = "\<lparr>window_size = 10, max_requests = 1, user_records = [''u1'' \<mapsto> [0::real]]\<rparr>"
  let ?cs = "[(RecordMessage, ''u1'', 0::real), (CanSendMessage, ''u2'', 3), (CanSendMessage, ''u1'', 10)]"
  let ?th = "\<lparr>min_interval = 10, user_last_timestamp = [''u2'' \<mapsto> 0::real]\<rparr>"
  let ?tcs = "[(CanSendMessage, ''u2'', 100::real, 100::real), (TimeUntilNextAllowed, ''u1'', 100, 100)]"
  have w: "window_of ?self ''u1'' = [0]" by (simp add: window_of_def)
  have r: "sliding_run \<lparr>window_size = 10, max_requests = 1, user_records = Map.empty\<rparr> ?cs
             = \<lparr>window_size = 10, max_requests = 1, user_records = Map.empty\<rparr>"
    by (simp add: sliding_record_message_def sliding_can_send_message_def cleanup_window_def Let_def)
  have t: "throttling_run ?th ?tcs = ?th"
    by (simp add: throttling_can_send_message_state throttling_time_until_next_allowed_state)
  from store_reclamation [of ?self "''u1''" 10 10 1 ?cs ?th ?tcs 10]
    store_reclamation [of ?self "''u2''" 10 10 1 ?cs ?th ?tcs 10] w r t
  show ?thesis
    by (simp add: SlidingWindowRateLimiter_init_def ThrottlingRateLimiter_init_def)
qed

section \<open>Decay of the wait (claim C9)\<close>

text \<open>
  The throttling limiter: the wait is 0 for a user with no timestamp and otherwise
  \<open>max 0 (min_interval - (now - last_timestamp))\<close>; it does not grow as the clock
  advances, and it is 0 from the boundary \<open>last_timestamp + min_interval\<close> on.
\<close>

lemma throttling_time_until_next_allowed_value:
  "fst (throttling_time_until_next_allowed th u now) =
     (case user_last_timestamp th u of
        None \<Rightarrow> 0
      | Some t \<Rightarrow> max 0 (min_interval th - (now - t)))"
  by (simp add: throttling_time_until_next_allowed_def Let_def max.commute split: option.splits)

lemma throttling_wait_decay:
  "t1 \<le> t2 \<Longrightarrow>
   fst (throttling_time_until_next_allowed (snd (throttling_time_until_next_allowed th u t1)) u t2)
     \<le> fst (throttling_time_until_next_allowed th u t1)"
  by (auto simp: throttling_time_until_next_allowed_state throttling_time_until_next_allowed_value
        max_def split: option.splits)

lemma throttling_wait_zero_from_boundary:
  "user_last_timestamp th u = Some t \<Longrightarrow> t + min_interval th \<le> now \<Longrightarrow>
   fst (throttling_time_until_next_allowed th u now) = 0"
  by (simp add: throttling_time_until_next_allowed_value)

text \<open>
  The sliding-window limiter with at most one stored timestamp for the user (which is
  what \<^verbatim>\<open>max_requests=1\<close> allows): the wait does not grow either.
\<close>

lemma sliding_wait_decay_single_slot:
  assumes "length (window_of self u) \<le> 1" and "t1 \<le> t2"
  shows "\<exists>w1 w2. fst (sliding_time_until_next_allowed self u t1) = Inr w1
           \<and> fst (sliding_time_until_next_allowed
                  (snd (sliding_time_until_next_allowed self u t1)) u t2) = Inr w2
           \<and> w2 \<le> w1"
proof (cases "user_records self u")
  case None
  then show ?thesis
    by (simp add: sliding_time_until_next_allowed_def cleanup_window_absent Let_def)
next
  case (Some w)
  with assms(1) have "w = [] \<or> (\<exists>t. w = [t])"
    by (cases w) (auto simp: window_of_def)
  then show ?thesis
  proof
    assume "w = []"
    with Some show ?thesis
      by (simp add: sliding_time_until_next_allowed_def cleanup_window_def Let_def)
  next
    assume "\<exists>t. w = [t]"
    then obtain t where "w = [t]" by blast
    with Some assms(2) show ?thesis
      by (simp add: sliding_time_until_next_allowed_def cleanup_window_def Let_def)
  qed
qed

text \<open>
  Claim C9 says that, with no further record, the wait reported for a user never grows
  as the clock advances. With \<^verbatim>\<open>window_size=10\<close> and \<^verbatim>\<open>max_requests=2\<close>, after admitted
  records at \<open>t = 0\<close> and \<open>t = 9\<close>, the sliding-window limiter reports 0.5 at \<open>t = 9.5\<close>
  and 9.0 at \<open>t = 10\<close>, where \<^verbatim>\<open>can_send_message\<close> is True: the cleanup has removed the
  first timestamp and the wait is computed from the second, although a slot is free.
\<close>

theorem sliding_wait_grows_with_two_slots:
  "fst (sliding_record_message (projr (SlidingWindowRateLimiter_init 10 2)) ''u1'' 0)
   \<and> fst (sliding_record_message
        (snd (sliding_record_message (projr (SlidingWindowRateLimiter_init 10 2)) ''u1'' 0))
        ''u1'' 9)
   \<and> fst (sliding_time_until_next_allowed
        (sliding_run (projr (SlidingWindowRateLimiter_init 10 2))
           [(RecordMessage, ''u1'', 0), (RecordMessage, ''u1'', 9)])
        ''u1'' 9.5) = Inr 0.5
   \<and> fst (sliding_time_until_next_allowed
        (sliding_run (projr (SlidingWindowRateLimiter_init 10 2))
           [(RecordMessage, ''u1'', 0), (RecordMessage, ''u1'', 9),
            (TimeUntilNextAllowed, ''u1'', 9.5)])
        ''u1'' 10) = Inr 9
   \<and> fst (sliding_can_send_message
        (sliding_run (projr (SlidingWindowRateLimiter_init 10 2))
           [(RecordMessage, ''u1'', 0), (RecordMessage, ''u1'', 9),
            (TimeUntilNextAllowed, ''u1'', 9.5)])
        ''u1'' 10)"
  by (simp add: SlidingWindowRateLimiter_init_def sliding_record_message_def
        sliding_time_until_next_allowed_def sliding_can_send_message_def
        cleanup_window_def Let_def)

end
